theory Spec2Isabelle
  imports Main "HOL-Library.Multiset"
begin

section \<open>Two array-search exercises: two sum and contains duplicate\<close>

text \<open>
  The repository holds two Python methods, each a single forward scan over a list of
  integers with a hash-based scratch structure:
  \<^item> \<^verbatim>\<open>Solution.two_sum(arr, target)\<close> in \<^verbatim>\<open>1_twoSum_python_mostEfficient.py\<close>
    (the spec's \<^verbatim>\<open>find_pair\<close>);
  \<^item> \<^verbatim>\<open>Solution.containsDuplicate(nums)\<close> in
    \<^verbatim>\<open>271containsDuplicatePythonMostEfficient.py\<close> (the spec's \<^verbatim>\<open>has_duplicate\<close>).

  Python integers are unbounded, so values and indices are \<^typ>\<open>int\<close>. Every operation
  of the source that can raise is a function into a sum type whose left summand is the
  exception. The objects a call can reach (the caller's list and the scratch structure)
  form a record that every loop iteration receives and returns.
\<close>

subsection \<open>Python primitives used by the two methods\<close>

datatype py_error = IndexError | KeyError

text \<open>
  \<^verbatim>\<open>xs[i]\<close> on a list: a negative index counts from the end, any index outside
  \<open>-len(xs) .. len(xs) - 1\<close> raises \<^verbatim>\<open>IndexError\<close>.
\<close>

definition list_getitem :: "int list \<Rightarrow> int \<Rightarrow> py_error + int" where
  "list_getitem xs i =
     (if 0 \<le> i \<and> i < int (length xs) then Inr (xs ! nat i)
      else if i < 0 \<and> - int (length xs) \<le> i then Inr (xs ! nat (int (length xs) + i))
      else Inl IndexError)"

text \<open>\<^verbatim>\<open>k in d\<close> and \<^verbatim>\<open>d[k]\<close> on a dict; the latter raises \<^verbatim>\<open>KeyError\<close> on a missing key.\<close>

definition dict_contains :: "(int \<rightharpoonup> int) \<Rightarrow> int \<Rightarrow> bool" where
  "dict_contains d k = (case d k of None \<Rightarrow> False | Some v \<Rightarrow> True)"

definition dict_getitem :: "(int \<rightharpoonup> int) \<Rightarrow> int \<Rightarrow> py_error + int" where
  "dict_getitem d k = (case d k of None \<Rightarrow> Inl KeyError | Some v \<Rightarrow> Inr v)"

text \<open>\<^verbatim>\<open>range(len(xs))\<close>: the indices \<open>0, 1, ..., len(xs) - 1\<close> in increasing order.\<close>

definition range_len :: "int list \<Rightarrow> int list" where
  "range_len xs = [0 .. int (length xs) - 1]"

subsection \<open>two_sum\<close>

text \<open>
  \<^verbatim>\<open>
  def two_sum(self, arr, target):
      hashmap = {}
      for i in range(len(arr)):
          complement = target-arr[i]
          if complement in hashmap:
              return [hashmap[complement],i]
          hashmap[arr[i]]=i
  \<close>
  Falling off the end of the loop returns Python's \<^verbatim>\<open>None\<close>: the result is
  \<open>Inr None\<close>; a returned list \<open>[k, i]\<close> is \<open>Inr (Some [k, i])\<close>; a raised exception
  would be \<open>Inl\<close>.
\<close>

record two_sum_state =
  arr :: "int list"
  hashmap :: "int \<rightharpoonup> int"

fun two_sum_loop ::
  "int \<Rightarrow> int list \<Rightarrow> two_sum_state \<Rightarrow> (py_error + int list option) \<times> two_sum_state" where
  "two_sum_loop target [] s = (Inr None, s)"
| "two_sum_loop target (i # rest) s =
     (case list_getitem (arr s) i of
        Inl e \<Rightarrow> (Inl e, s)
      | Inr a \<Rightarrow>
          (let complement = target - a in
           if dict_contains (hashmap s) complement then
             (case dict_getitem (hashmap s) complement of
                Inl e \<Rightarrow> (Inl e, s)
              | Inr k \<Rightarrow> (Inr (Some [k, i]), s))
           else
             (case list_getitem (arr s) i of
                Inl e \<Rightarrow> (Inl e, s)
              | Inr key \<Rightarrow> two_sum_loop target rest (s\<lparr>hashmap := (hashmap s)(key \<mapsto> i)\<rparr>))))"

text \<open>
  The body of the method run on a state: the first statement binds \<^verbatim>\<open>hashmap\<close> to a
  fresh empty dict, whatever the state held before, then the loop runs over
  \<^verbatim>\<open>range(len(arr))\<close>.
\<close>

definition two_sum_call ::
  "int \<Rightarrow> two_sum_state \<Rightarrow> (py_error + int list option) \<times> two_sum_state" where
  "two_sum_call target s =
     (let s0 = s\<lparr>hashmap := Map.empty\<rparr> in two_sum_loop target (range_len (arr s0)) s0)"

definition two_sum :: "int list \<Rightarrow> int \<Rightarrow> py_error + int list option" where
  "two_sum xs target = fst (two_sum_call target \<lparr>arr = xs, hashmap = Map.empty\<rparr>)"

subsection \<open>containsDuplicate\<close>

text \<open>
  \<^verbatim>\<open>
  def containsDuplicate(_self, nums):
      seen = set()
      for n in nums:
          if n in seen:
              return True
          seen.add(n)
      return False
  \<close>
\<close>

record contains_duplicate_state =
  nums :: "int list"
  seen :: "int set"

fun containsDuplicate_loop ::
  "int list \<Rightarrow> contains_duplicate_state \<Rightarrow> bool \<times> contains_duplicate_state" where
  "containsDuplicate_loop [] s = (False, s)"
| "containsDuplicate_loop (n # rest) s =
     (if n \<in> seen s then (True, s)
      else containsDuplicate_loop rest (s\<lparr>seen := insert n (seen s)\<rparr>))"

definition containsDuplicate_call ::
  "contains_duplicate_state \<Rightarrow> bool \<times> contains_duplicate_state" where
  "containsDuplicate_call s =
     (let s0 = s\<lparr>seen := {}\<rparr> in containsDuplicate_loop (nums s0) s0)"

definition containsDuplicate :: "int list \<Rightarrow> bool" where
  "containsDuplicate xs = fst (containsDuplicate_call \<lparr>nums = xs, seen = {}\<rparr>)"

section \<open>Properties of the scan\<close>

subsection \<open>The loop of two_sum\<close>

text \<open>An index produced by \<^verbatim>\<open>range(len(xs))\<close> reads the list without raising.\<close>

lemma list_getitem_in_range:
  "0 \<le> i \<Longrightarrow> i < int (length xs) \<Longrightarrow> list_getitem xs i = Inr (xs ! nat i)"
  by (simp add: list_getitem_def)

text \<open>No iteration assigns to the list: the loop returns it as it received it.\<close>

lemma two_sum_loop_arr: "arr (snd (two_sum_loop t js s)) = arr s"
  by (induction js arbitrary: s) (auto simp: Let_def split: sum.splits)

text \<open>
  The invariant of the scan when it stands at index \<open>k\<close>: the dict maps a value to the
  latest index below \<open>k\<close> that holds it, a value absent from the dict occurs nowhere
  below \<open>k\<close>, and no pair of positions below \<open>k\<close> sums to the target. From such a
  state the loop either falls through, and then no pair exists in the whole list, or
  returns \<open>[i, j]\<close> where \<open>j\<close> is the first index that completes a pair and \<open>i\<close> the latest
  index before \<open>j\<close> holding the complement.
\<close>

lemma two_sum_loop_scan:
  assumes "0 \<le> k" and "k \<le> n" and "n = int (length (arr s))"
    and "\<forall>v i. hashmap s v = Some i \<longrightarrow>
           0 \<le> i \<and> i < k \<and> arr s ! nat i = v \<and> (\<forall>i'. i < i' \<and> i' < k \<longrightarrow> arr s ! nat i' \<noteq> v)"
    and "\<forall>v. hashmap s v = None \<longrightarrow> (\<forall>i. 0 \<le> i \<and> i < k \<longrightarrow> arr s ! nat i \<noteq> v)"
    and "\<forall>i j. 0 \<le> i \<and> i < j \<and> j < k \<longrightarrow> arr s ! nat i + arr s ! nat j \<noteq> t"
  shows "(fst (two_sum_loop t [k .. n - 1] s) = Inr None \<and>
            (\<forall>i j. 0 \<le> i \<and> i < j \<and> j < n \<longrightarrow> arr s ! nat i + arr s ! nat j \<noteq> t)) \<or>
         (\<exists>i j. fst (two_sum_loop t [k .. n - 1] s) = Inr (Some [i, j]) \<and>
            0 \<le> i \<and> i < j \<and> j < n \<and> arr s ! nat i + arr s ! nat j = t \<and>
            (\<forall>i'. i < i' \<and> i' < j \<longrightarrow> arr s ! nat i' \<noteq> t - arr s ! nat j) \<and>
            (\<forall>i' j'. 0 \<le> i' \<and> i' < j' \<and> j' < j \<longrightarrow> arr s ! nat i' + arr s ! nat j' \<noteq> t))"
  using assms
proof (induction "nat (n - k)" arbitrary: k s)
  case 0
  then have "k = n" by simp
  with 0 show ?case by simp
next
  case (Suc m)
  let ?a = "arr s ! nat k"
  let ?c = "t - ?a"
  from Suc.hyps(2) have kn: "k < n" by linarith
  then have range: "[k .. n - 1] = k # [k + 1 .. n - 1]"
    by (simp add: upto_rec1)
  have get: "list_getitem (arr s) k = Inr ?a"
    using Suc.prems(1,3) kn by (simp add: list_getitem_in_range)
  show ?case
  proof (cases "hashmap s ?c")
    case (Some i)
    with Suc.prems(4) have i: "0 \<le> i" "i < k" "arr s ! nat i = ?c"
      "\<forall>i'. i < i' \<and> i' < k \<longrightarrow> arr s ! nat i' \<noteq> ?c"
      by blast+
    have "fst (two_sum_loop t [k .. n - 1] s) = Inr (Some [i, k])"
      using Some get by (simp add: range dict_contains_def dict_getitem_def)
    moreover have "arr s ! nat i + ?a = t" using i(3) by simp
    ultimately show ?thesis using i kn Suc.prems(6) by blast
  next
    case None
    let ?s = "s\<lparr>hashmap := (hashmap s)(?a \<mapsto> k)\<rparr>"
    have step: "two_sum_loop t [k .. n - 1] s = two_sum_loop t [k + 1 .. n - 1] ?s"
      using None get by (simp add: range dict_contains_def)
    have m: "m = nat (n - (k + 1))" using Suc.hyps(2) by linarith
    have p1: "0 \<le> k + 1" using Suc.prems(1) by simp
    have p2: "k + 1 \<le> n" using kn by simp
    have p3: "n = int (length (arr ?s))" using Suc.prems(3) by simp
    have p4: "\<forall>v i. hashmap ?s v = Some i \<longrightarrow>
           0 \<le> i \<and> i < k + 1 \<and> arr ?s ! nat i = v \<and>
           (\<forall>i'. i < i' \<and> i' < k + 1 \<longrightarrow> arr ?s ! nat i' \<noteq> v)"
    proof (intro allI impI)
      fix v i assume h: "hashmap ?s v = Some i"
      show "0 \<le> i \<and> i < k + 1 \<and> arr ?s ! nat i = v \<and>
           (\<forall>i'. i < i' \<and> i' < k + 1 \<longrightarrow> arr ?s ! nat i' \<noteq> v)"
      proof (cases "v = ?a")
        case True
        with h have "i = k" by simp
        with True Suc.prems(1) show ?thesis by simp
      next
        case False
        with h have "hashmap s v = Some i" by simp
        with Suc.prems(4) have old: "0 \<le> i" "i < k" "arr s ! nat i = v"
            "\<forall>i'. i < i' \<and> i' < k \<longrightarrow> arr s ! nat i' \<noteq> v" by blast+
        have "arr s ! nat i' \<noteq> v" if "i < i' \<and> i' < k + 1" for i'
        proof (cases "i' = k")
          case True
          with False show ?thesis by simp
        next
          case False
          with that have "i < i' \<and> i' < k" by linarith
          with old(4) show ?thesis by blast
        qed
        with old show ?thesis by simp
      qed
    qed
    have p5: "\<forall>v. hashmap ?s v = None \<longrightarrow> (\<forall>i. 0 \<le> i \<and> i < k + 1 \<longrightarrow> arr ?s ! nat i \<noteq> v)"
    proof (intro allI impI)
      fix v i assume h: "hashmap ?s v = None" and i: "0 \<le> i \<and> i < k + 1"
      from h have ne: "v \<noteq> ?a" and old: "hashmap s v = None"
        by (auto split: if_splits)
      from i have "i < k \<or> i = k" by linarith
      then show "arr ?s ! nat i \<noteq> v"
        using ne old i Suc.prems(5) by auto
    qed
    have p6: "\<forall>i j. 0 \<le> i \<and> i < j \<and> j < k + 1 \<longrightarrow> arr ?s ! nat i + arr ?s ! nat j \<noteq> t"
    proof (intro allI impI)
      fix i j assume ij: "0 \<le> i \<and> i < j \<and> j < k + 1"
      then have "j < k \<or> j = k" by linarith
      then show "arr ?s ! nat i + arr ?s ! nat j \<noteq> t"
      proof
        assume "j < k" with ij Suc.prems(6) show ?thesis by simp
      next
        assume jk: "j = k"
        from None Suc.prems(5) ij jk have "arr s ! nat i \<noteq> ?c" by blast
        with jk show ?thesis by auto
      qed
    qed
    from Suc.hyps(1)[OF m p1 p2 p3 p4 p5 p6] show ?thesis
      unfolding step by simp
  qed
qed


text \<open>The call starts the loop at index 0 with an empty dict, whatever dict the state held.\<close>

lemma two_sum_call_fresh:
  "two_sum_call t s = two_sum_loop t [0 .. int (length (arr s)) - 1] \<lparr>arr = arr s, hashmap = Map.empty\<rparr>"
  by (cases s) (simp add: two_sum_call_def range_len_def)

lemma two_sum_eq_loop:
  "two_sum S t = fst (two_sum_loop t [0 .. int (length S) - 1] \<lparr>arr = S, hashmap = Map.empty\<rparr>)"
  by (simp add: two_sum_def two_sum_call_fresh)

lemma two_sum_cases:
  "(two_sum S t = Inr None \<and>
      (\<forall>i j. 0 \<le> i \<and> i < j \<and> j < int (length S) \<longrightarrow> S ! nat i + S ! nat j \<noteq> t)) \<or>
   (\<exists>i j. two_sum S t = Inr (Some [i, j]) \<and>
      0 \<le> i \<and> i < j \<and> j < int (length S) \<and> S ! nat i + S ! nat j = t \<and>
      (\<forall>i'. i < i' \<and> i' < j \<longrightarrow> S ! nat i' \<noteq> t - S ! nat j) \<and>
      (\<forall>i' j'. 0 \<le> i' \<and> i' < j' \<and> j' < j \<longrightarrow> S ! nat i' + S ! nat j' \<noteq> t))"
proof -
  let ?s = "\<lparr>arr = S, hashmap = Map.empty\<rparr>"
  have start: "(0 :: int) \<le> 0" "0 \<le> int (length S)" "int (length S) = int (length (arr ?s))"
    by simp_all
  have dict_some: "\<forall>v i. hashmap ?s v = Some i \<longrightarrow>
      0 \<le> i \<and> i < 0 \<and> arr ?s ! nat i = v \<and> (\<forall>i'. i < i' \<and> i' < 0 \<longrightarrow> arr ?s ! nat i' \<noteq> v)"
    by simp
  have dict_none: "\<forall>v. hashmap ?s v = None \<longrightarrow> (\<forall>i. 0 \<le> i \<and> i < 0 \<longrightarrow> arr ?s ! nat i \<noteq> v)"
    by simp
  have no_pair: "\<forall>i j. 0 \<le> i \<and> i < j \<and> j < 0 \<longrightarrow> arr ?s ! nat i + arr ?s ! nat j \<noteq> t"
    by simp
  have list: "arr ?s = S"
    by simp
  from two_sum_loop_scan [OF start dict_some dict_none no_pair] show ?thesis
    unfolding two_sum_eq_loop list .
qed

text \<open>What the method can return, and what a returned pair satisfies.\<close>

lemma two_sum_result_shape:
  "two_sum S t = Inr None \<or> (\<exists>i j. two_sum S t = Inr (Some [i, j]))"
  using two_sum_cases [of S t] by blast

lemma two_sum_Some_valid:
  assumes "two_sum S t = Inr (Some [i, j])"
  shows "0 \<le> i \<and> i < j \<and> j < int (length S) \<and> S ! nat i + S ! nat j = t"
  using assms two_sum_cases [of S t] by auto

subsection \<open>The loop of containsDuplicate\<close>

lemma containsDuplicate_loop_nums: "nums (snd (containsDuplicate_loop ns s)) = nums s"
  by (induction ns arbitrary: s) auto

lemma containsDuplicate_loop_iff:
  "fst (containsDuplicate_loop ns s) \<longleftrightarrow> \<not> distinct ns \<or> set ns \<inter> seen s \<noteq> {}"
  by (induction ns arbitrary: s) auto

lemma containsDuplicate_call_fresh:
  "containsDuplicate_call s = containsDuplicate_loop (nums s) \<lparr>nums = nums s, seen = {}\<rparr>"
  by (cases s) (simp add: containsDuplicate_call_def)

lemma containsDuplicate_iff_not_distinct: "containsDuplicate S \<longleftrightarrow> \<not> distinct S"
  by (simp add: containsDuplicate_def containsDuplicate_call_fresh containsDuplicate_loop_iff)

section \<open>The claims\<close>

text \<open>
  C1. Whenever \<open>two_sum\<close> returns a list, the list is a pair \<open>[i, j]\<close> of two different
  indices with \<open>0 \<le> i < j < len(S)\<close> whose values sum to the target: the same index is
  never returned twice.
\<close>

theorem two_sum_returns_valid_pair:
  assumes "two_sum S t = Inr (Some r)"
  shows "\<exists>i j. r = [i, j] \<and> i \<noteq> j \<and> 0 \<le> i \<and> i < j \<and> j < int (length S) \<and>
           S ! nat i + S ! nat j = t"
  using assms two_sum_cases [of S t] by auto

theorem two_sum_returns_valid_pair_witness:
  "two_sum [2, 7, 11, 15] 9 = Inr (Some [0, 1]) \<and>
   (\<exists>i j. [0, 1] = [i, j] \<and> i \<noteq> j \<and> 0 \<le> i \<and> i < j \<and> j < int (length [2, 7, 11, 15 :: int]) \<and>
      [2, 7, 11, 15] ! nat i + [2, 7, 11, 15] ! nat j = (9 :: int))"
proof -
  have run: "two_sum [2, 7, 11, 15] 9 = Inr (Some [0, 1])"
    by code_simp
  from two_sum_returns_valid_pair [OF run] run show ?thesis
    by blast
qed

text \<open>
  C2. \<open>containsDuplicate\<close> returns true exactly when two different positions of the
  list hold the same value.
\<close>

theorem containsDuplicate_iff_repeated_value:
  "containsDuplicate S \<longleftrightarrow> (\<exists>i j. i < length S \<and> j < length S \<and> i \<noteq> j \<and> S ! i = S ! j)"
  by (auto simp: containsDuplicate_iff_not_distinct distinct_conv_nth)

text \<open>
  C3. When no two different positions of the list hold values that sum to the target,
  \<open>two_sum\<close> returns the not-found outcome: the ordinary value \<open>Inr None\<close>, neither an
  exception nor a pair. The empty list gives not-found for every target.
\<close>

theorem two_sum_not_found:
  "(\<not> (\<exists>i j. 0 \<le> i \<and> i < int (length S) \<and> 0 \<le> j \<and> j < int (length S) \<and> i \<noteq> j \<and>
          S ! nat i + S ! nat j = t)
      \<longrightarrow> two_sum S t = Inr None) \<and>
   two_sum [] t = Inr None"
proof (intro conjI impI)
  assume none: "\<not> (\<exists>i j. 0 \<le> i \<and> i < int (length S) \<and> 0 \<le> j \<and> j < int (length S) \<and> i \<noteq> j \<and>
          S ! nat i + S ! nat j = t)"
  show "two_sum S t = Inr None"
  proof (rule ccontr)
    assume "two_sum S t \<noteq> Inr None"
    with two_sum_cases [of S t] obtain i j where
      "0 \<le> i" "i < j" "j < int (length S)" "S ! nat i + S ! nat j = t"
      by blast
    then have "0 \<le> i \<and> i < int (length S) \<and> 0 \<le> j \<and> j < int (length S) \<and> i \<noteq> j \<and>
          S ! nat i + S ! nat j = t"
      by simp
    with none show False by blast
  qed
next
  show "two_sum [] t = Inr None"
    by (simp add: two_sum_eq_loop)
qed

text \<open>The values of the list \<open>[1, 2, 3]\<close> are at most 3, so no two of them sum to 10.\<close>

lemma elems_1_2_3: "0 \<le> (i :: int) \<Longrightarrow> i < 3 \<Longrightarrow> [1, 2, 3 :: int] ! nat i \<le> 3"
proof -
  assume "0 \<le> i" "i < 3"
  then have "nat i = 0 \<or> nat i = 1 \<or> nat i = 2" by arith
  then show ?thesis by (elim disjE) simp_all
qed

theorem two_sum_not_found_witness:
  "\<not> (\<exists>i j. 0 \<le> i \<and> i < int (length [1, 2, 3 :: int]) \<and> 0 \<le> j \<and> j < int (length [1, 2, 3 :: int]) \<and>
         i \<noteq> j \<and> [1, 2, 3] ! nat i + [1, 2, 3] ! nat j = (10 :: int)) \<and>
   two_sum [1, 2, 3] 10 = Inr None"
proof -
  have hyp: "\<not> (\<exists>i j. 0 \<le> i \<and> i < int (length [1, 2, 3 :: int]) \<and> 0 \<le> j \<and>
         j < int (length [1, 2, 3 :: int]) \<and>
         i \<noteq> j \<and> [1, 2, 3] ! nat i + [1, 2, 3] ! nat j = (10 :: int))"
  proof
    assume "\<exists>i j. 0 \<le> i \<and> i < int (length [1, 2, 3 :: int]) \<and> 0 \<le> j \<and>
         j < int (length [1, 2, 3 :: int]) \<and>
         i \<noteq> j \<and> [1, 2, 3] ! nat i + [1, 2, 3] ! nat j = (10 :: int)"
    then obtain i j where b: "0 \<le> i" "i < 3" "0 \<le> j" "j < 3"
      and sum: "[1, 2, 3] ! nat i + [1, 2, 3] ! nat j = (10 :: int)"
      by auto
    from elems_1_2_3 [OF b(1,2)] elems_1_2_3 [OF b(3,4)] sum show False
      by linarith
  qed
  from hyp two_sum_not_found [of "[1, 2, 3]" 10] have "two_sum [1, 2, 3] 10 = Inr None"
    by blast
  with hyp show ?thesis by (rule conjI)
qed

text \<open>
  C4. When the list has two different positions whose values sum to the target,
  \<open>two_sum\<close> returns the earliest-completing pair \<open>[i, j]\<close>: no valid pair completes at
  an index below \<open>j\<close>, and \<open>i\<close> is the most recent index before \<open>j\<close> that holds the
  complement \<open>t - S[j]\<close> (a later equal value has overwritten the stored index).
\<close>

theorem two_sum_earliest_completing_pair:
  assumes "\<exists>i j. 0 \<le> i \<and> i < int (length S) \<and> 0 \<le> j \<and> j < int (length S) \<and> i \<noteq> j \<and>
             S ! nat i + S ! nat j = t"
  shows "\<exists>i j. two_sum S t = Inr (Some [i, j]) \<and>
           0 \<le> i \<and> i < j \<and> j < int (length S) \<and> S ! nat i + S ! nat j = t \<and>
           \<not> (\<exists>i' j'. 0 \<le> i' \<and> i' < j' \<and> j' < j \<and> S ! nat i' + S ! nat j' = t) \<and>
           \<not> (\<exists>i'. i < i' \<and> i' < j \<and> S ! nat i' = t - S ! nat j)"
proof -
  from assms obtain a b where ab: "0 \<le> a" "a < int (length S)" "0 \<le> b" "b < int (length S)"
    "a \<noteq> b" "S ! nat a + S ! nat b = t"
    by blast
  have pair: "\<exists>i j. 0 \<le> i \<and> i < j \<and> j < int (length S) \<and> S ! nat i + S ! nat j = t"
  proof (cases "a < b")
    case True
    with ab show ?thesis by blast
  next
    case False
    with ab have "b < a" "S ! nat b + S ! nat a = t" by simp_all
    with ab show ?thesis by blast
  qed
  from two_sum_cases [of S t] show ?thesis
  proof
    assume "two_sum S t = Inr None \<and>
      (\<forall>i j. 0 \<le> i \<and> i < j \<and> j < int (length S) \<longrightarrow> S ! nat i + S ! nat j \<noteq> t)"
    with pair show ?thesis by blast
  next
    assume "\<exists>i j. two_sum S t = Inr (Some [i, j]) \<and>
      0 \<le> i \<and> i < j \<and> j < int (length S) \<and> S ! nat i + S ! nat j = t \<and>
      (\<forall>i'. i < i' \<and> i' < j \<longrightarrow> S ! nat i' \<noteq> t - S ! nat j) \<and>
      (\<forall>i' j'. 0 \<le> i' \<and> i' < j' \<and> j' < j \<longrightarrow> S ! nat i' + S ! nat j' \<noteq> t)"
    then obtain i j where "two_sum S t = Inr (Some [i, j])"
      "0 \<le> i" "i < j" "j < int (length S)" "S ! nat i + S ! nat j = t"
      "\<forall>i'. i < i' \<and> i' < j \<longrightarrow> S ! nat i' \<noteq> t - S ! nat j"
      "\<forall>i' j'. 0 \<le> i' \<and> i' < j' \<and> j' < j \<longrightarrow> S ! nat i' + S ! nat j' \<noteq> t"
      by blast
    then show ?thesis by blast
  qed
qed

theorem two_sum_earliest_completing_pair_witness:
  "(\<exists>i j. 0 \<le> i \<and> i < int (length [1, 1, 1, 5, 3 :: int]) \<and> 0 \<le> j \<and>
       j < int (length [1, 1, 1, 5, 3 :: int]) \<and> i \<noteq> j \<and>
       [1, 1, 1, 5, 3] ! nat i + [1, 1, 1, 5, 3] ! nat j = (6 :: int)) \<and>
   two_sum [1, 1, 1, 5, 3] 6 = Inr (Some [2, 3]) \<and>
   \<not> (\<exists>i' j'. 0 \<le> i' \<and> i' < j' \<and> j' < 3 \<and>
       [1, 1, 1, 5, 3] ! nat i' + [1, 1, 1, 5, 3] ! nat j' = (6 :: int)) \<and>
   \<not> (\<exists>i'. 2 < i' \<and> i' < 3 \<and> [1, 1, 1, 5, 3] ! nat i' = (6 :: int) - [1, 1, 1, 5, 3] ! nat 3)"
proof -
  have "0 \<le> (0 :: int) \<and> 0 < int (length [1, 1, 1, 5, 3 :: int]) \<and> 0 \<le> (3 :: int) \<and>
       3 < int (length [1, 1, 1, 5, 3 :: int]) \<and> (0 :: int) \<noteq> 3 \<and>
       [1, 1, 1, 5, 3] ! nat 0 + [1, 1, 1, 5, 3] ! nat 3 = (6 :: int)"
    by simp
  then have hyp: "\<exists>i j. 0 \<le> i \<and> i < int (length [1, 1, 1, 5, 3 :: int]) \<and> 0 \<le> j \<and>
       j < int (length [1, 1, 1, 5, 3 :: int]) \<and> i \<noteq> j \<and>
       [1, 1, 1, 5, 3] ! nat i + [1, 1, 1, 5, 3] ! nat j = (6 :: int)"
    by blast
  have run: "two_sum [1, 1, 1, 5, 3] 6 = Inr (Some [2, 3])"
    by code_simp
  from two_sum_earliest_completing_pair [OF hyp] obtain i j where
    ij: "two_sum [1, 1, 1, 5, 3] 6 = Inr (Some [i, j])"
    and first: "\<not> (\<exists>i' j'. 0 \<le> i' \<and> i' < j' \<and> j' < j \<and>
       [1, 1, 1, 5, 3] ! nat i' + [1, 1, 1, 5, 3] ! nat j' = (6 :: int))"
    and latest: "\<not> (\<exists>i'. i < i' \<and> i' < j \<and>
       [1, 1, 1, 5, 3] ! nat i' = (6 :: int) - [1, 1, 1, 5, 3] ! nat j)"
    by blast
  from ij run have "i = 2" "j = 3" by simp_all
  with hyp run first latest show ?thesis by blast
qed

text \<open>
  C5. On every list of integers of any length, the empty list included, neither method
  raises: \<open>two_sum\<close> yields \<open>Inr\<close> of either \<open>None\<close> or a two-element list, never
  \<open>Inl\<close>; \<open>containsDuplicate\<close>, whose body has no operation that can raise, yields a
  boolean. Both embeddings are total functions defined by structural recursion.
\<close>

theorem no_exception_on_integer_lists:
  "(\<exists>r. two_sum S t = Inr r \<and> (r = None \<or> (\<exists>i j. r = Some [i, j]))) \<and>
   containsDuplicate ns \<in> {True, False}"
proof
  from two_sum_result_shape [of S t]
  show "\<exists>r. two_sum S t = Inr r \<and> (r = None \<or> (\<exists>i j. r = Some [i, j]))"
    by blast
next
  show "containsDuplicate ns \<in> {True, False}"
    by simp
qed

text \<open>
  C6. With target \<open>2 * v\<close>, a returned pair that involves the value \<open>v\<close> consists of two
  different positions that both hold \<open>v\<close>; \<open>two_sum([5, 5], 10)\<close> returns \<open>[0, 1]\<close>, and
  a single occurrence of \<open>v\<close> is not paired with itself.
\<close>

theorem two_sum_double_value:
  "(two_sum S (2 * v) = Inr (Some [i, j]) \<and> (S ! nat i = v \<or> S ! nat j = v) \<longrightarrow>
      i \<noteq> j \<and> 0 \<le> i \<and> i < j \<and> j < int (length S) \<and> S ! nat i = v \<and> S ! nat j = v) \<and>
   two_sum [5, 5] 10 = Inr (Some [0, 1]) \<and>
   two_sum [v] (2 * v) = Inr None"
proof (intro conjI)
  show "two_sum S (2 * v) = Inr (Some [i, j]) \<and> (S ! nat i = v \<or> S ! nat j = v) \<longrightarrow>
      i \<noteq> j \<and> 0 \<le> i \<and> i < j \<and> j < int (length S) \<and> S ! nat i = v \<and> S ! nat j = v"
  proof
    assume a: "two_sum S (2 * v) = Inr (Some [i, j]) \<and> (S ! nat i = v \<or> S ! nat j = v)"
    then have "two_sum S (2 * v) = Inr (Some [i, j])" ..
    from two_sum_Some_valid [OF this] have
      valid: "0 \<le> i" "i < j" "j < int (length S)" "S ! nat i + S ! nat j = 2 * v"
      by simp_all
    from a valid(4) have "S ! nat i = v \<and> S ! nat j = v"
      by auto
    with valid show "i \<noteq> j \<and> 0 \<le> i \<and> i < j \<and> j < int (length S) \<and> S ! nat i = v \<and> S ! nat j = v"
      by simp
  qed
next
  show "two_sum [5, 5] 10 = Inr (Some [0, 1])"
    by code_simp
next
  show "two_sum [v] (2 * v) = Inr None"
    by (simp add: two_sum_eq_loop list_getitem_def dict_contains_def)
qed

theorem two_sum_double_value_witness:
  "two_sum [4, 3, 3] (2 * 3) = Inr (Some [1, 2]) \<and> [4, 3, 3 :: int] ! nat 1 = 3 \<and>
   (1 :: int) \<noteq> 2 \<and> (1 :: int) < 2 \<and> 2 < int (length [4, 3, 3 :: int]) \<and>
   [4, 3, 3 :: int] ! nat 2 = 3"
proof -
  have run: "two_sum [4, 3, 3] (2 * 3) = Inr (Some [1, 2])"
    by code_simp
  have pos: "[4, 3, 3 :: int] ! nat 1 = 3"
    by simp
  from two_sum_double_value [of "[4, 3, 3]" 3 1 2] run pos show ?thesis
    by blast
qed

text \<open>C7. \<open>containsDuplicate\<close> of the empty list is false.\<close>

theorem containsDuplicate_empty: "containsDuplicate [] = False"
  by (simp add: containsDuplicate_iff_not_distinct)

text \<open>
  C8. Both methods are pure. Run on any state, a call leaves the input list as it was;
  its result is the function \<open>two_sum\<close> (or \<open>containsDuplicate\<close>) of the list and the
  target alone; the result does not depend on a scratch structure the state already
  held; and a second call on the state the first one left returns what the first did.
\<close>

theorem calls_are_pure:
  "arr (snd (two_sum_call t s)) = arr s \<and>
   fst (two_sum_call t s) = two_sum (arr s) t \<and>
   fst (two_sum_call t (s\<lparr>hashmap := h\<rparr>)) = fst (two_sum_call t s) \<and>
   fst (two_sum_call t (snd (two_sum_call t s))) = fst (two_sum_call t s) \<and>
   nums (snd (containsDuplicate_call c)) = nums c \<and>
   fst (containsDuplicate_call c) = containsDuplicate (nums c) \<and>
   fst (containsDuplicate_call (c\<lparr>seen := e\<rparr>)) = fst (containsDuplicate_call c) \<and>
   fst (containsDuplicate_call (snd (containsDuplicate_call c))) = fst (containsDuplicate_call c)"
proof (intro conjI)
  show keep: "arr (snd (two_sum_call t s)) = arr s"
    by (simp add: two_sum_call_fresh two_sum_loop_arr)
  show "fst (two_sum_call t s) = two_sum (arr s) t"
    by (simp add: two_sum_call_fresh two_sum_eq_loop)
  show "fst (two_sum_call t (s\<lparr>hashmap := h\<rparr>)) = fst (two_sum_call t s)"
    by (simp add: two_sum_call_fresh)
  show "fst (two_sum_call t (snd (two_sum_call t s))) = fst (two_sum_call t s)"
    using keep by (simp add: two_sum_call_fresh)
  show keep': "nums (snd (containsDuplicate_call c)) = nums c"
    by (simp add: containsDuplicate_call_fresh containsDuplicate_loop_nums)
  show "fst (containsDuplicate_call c) = containsDuplicate (nums c)"
    by (simp add: containsDuplicate_def containsDuplicate_call_fresh)
  show "fst (containsDuplicate_call (c\<lparr>seen := e\<rparr>)) = fst (containsDuplicate_call c)"
    by (simp add: containsDuplicate_call_fresh)
  show "fst (containsDuplicate_call (snd (containsDuplicate_call c))) = fst (containsDuplicate_call c)"
    using keep' by (simp add: containsDuplicate_call_fresh)
qed

text \<open>
  C9. \<open>two_sum([1, 2, 3, 4, 5], 9)\<close> returns the index pair \<open>[3, 4]\<close>, whose values are
  4 and 5.
\<close>

theorem two_sum_example:
  "two_sum [1, 2, 3, 4, 5] 9 = Inr (Some [3, 4]) \<and>
   list_getitem [1, 2, 3, 4, 5] 3 = Inr 4 \<and> list_getitem [1, 2, 3, 4, 5] 4 = Inr 5"
  by code_simp

text \<open>
  C10. \<open>containsDuplicate\<close> gives the same answer on every permutation of its input:
  lists with the same multiset of values have the same result.
\<close>

theorem containsDuplicate_permutation:
  "mset S' = mset S \<Longrightarrow> containsDuplicate S' = containsDuplicate S"
proof -
  assume "mset S' = mset S"
  then have "distinct S' = distinct S"
    by (rule mset_eq_imp_distinct_iff)
  then show ?thesis
    by (simp only: containsDuplicate_iff_not_distinct)
qed

theorem containsDuplicate_permutation_witness:
  "mset [1, 1, 2 :: int] = mset [1, 2, 1] \<and>
   containsDuplicate [1, 1, 2] = containsDuplicate [1, 2, 1]"
proof -
  have perm: "mset [1, 1, 2 :: int] = mset [1, 2, 1]"
    by simp
  from perm containsDuplicate_permutation [OF perm] show ?thesis
    by (rule conjI)
qed

end
